theory Spec2Isabelle
  imports Complex_Main "HOL-Library.AList" "HOL-Library.Word"
begin

unbundle bit_operations_syntax

section \<open>Cross-epoch equivocation verifier (tklocal\_equivocation\_audit.py)\<close>

text \<open>
  Python integers are unbounded, so epochs and roots are \<open>int\<close>; the operation counters
  only ever count up from zero and are \<open>nat\<close>. Python floats are idealised as \<open>real\<close>
  throughout: every property below is about which branch runs and which algebraic
  expression is stored, not about rounding.

  Several classes of the audit scripts use the same field names (\<open>epoch\<close>, \<open>state\<close>,
  \<open>verifier_ops\<close>, ...); a field is written with its record's name in front wherever the
  bare name would be ambiguous.
\<close>

record EpochCommitment =
  epoch :: int
  parent_root :: int
  state_root :: int

text \<open>
  \<open>EquivocationVerifier.seen\<close> is a dict from \<open>(epoch, parent_root)\<close> to
  \<open>(state_root, branch_name)\<close>; only lookups and stores are used, so it is a map.
\<close>

record EquivocationVerifier =
  seen :: "(int \<times> int) \<rightharpoonup> (int \<times> string)"
  ops :: nat

definition EquivocationVerifier_init :: EquivocationVerifier where
  "EquivocationVerifier_init = \<lparr>seen = Map.empty, EquivocationVerifier.ops = 0\<rparr>"

text \<open>
  \<open>observe\<close> returns the triple \<open>(detected, epoch, offender)\<close> and the updated verifier.
  The counter is bumped first; the early return on a conflicting root leaves \<open>seen\<close> alone;
  every other path falls through to the store.
\<close>

definition observe ::
  "EpochCommitment \<Rightarrow> string \<Rightarrow> EquivocationVerifier \<Rightarrow>
     (bool \<times> int option \<times> string option) \<times> EquivocationVerifier" where
  "observe c branch_name v =
     (let v1 = v\<lparr>EquivocationVerifier.ops := EquivocationVerifier.ops v + 1\<rparr>;
          key = (EpochCommitment.epoch c, parent_root c);
          stored = v1\<lparr>seen := (seen v1)(key \<mapsto> (state_root c, branch_name))\<rparr>
      in case seen v1 key of
           Some (prev_root, prev_branch) \<Rightarrow>
             if prev_root \<noteq> state_root c
             then ((True, Some (EpochCommitment.epoch c), Some branch_name), v1)
             else ((False, None, None), stored)
         | None \<Rightarrow> ((False, None, None), stored))"

text \<open>A sequence of \<open>observe\<close> calls on one verifier, results discarded.\<close>

fun observe_all ::
  "(EpochCommitment \<times> string) list \<Rightarrow> EquivocationVerifier \<Rightarrow> EquivocationVerifier" where
  "observe_all [] v = v"
| "observe_all ((c, branch_name) # rest) v = observe_all rest (snd (observe c branch_name v))"

text \<open>The state root of the first commitment of a sequence that carries a given key.\<close>

fun first_root :: "(int \<times> int) \<Rightarrow> (EpochCommitment \<times> string) list \<Rightarrow> int option" where
  "first_root k [] = None"
| "first_root k ((c, branch_name) # rest) =
     (if (EpochCommitment.epoch c, parent_root c) = k then Some (state_root c)
      else first_root k rest)"

section \<open>Epoch ledger with a finality window (tklocal\_epoch\_finality\_audit.py)\<close>

text \<open>
  \<open>EpochLedger.nodes\<close> is a dict keyed by epoch. \<open>finalize_up_to\<close> iterates over it and
  keeps the root of the last node it marks, so the iteration order matters: the dict is an
  association list in insertion order, and a store is \<open>AList.update\<close>, which overwrites
  an existing key in place and appends a new one at the end, as a Python dict does.

  The builtin \<open>hash\<close> of the tuple \<open>(epoch, parent)\<close> is a parameter \<open>hash_fn\<close> of the
  operations that call it.
\<close>

record EpochNode =
  epoch :: int
  parent :: "int option"
  root :: int
  finalized :: bool

record EpochLedger =
  nodes :: "(int \<times> EpochNode) list"
  final_root :: "int option"
  verifier_ops :: nat

definition EpochLedger_init :: EpochLedger where
  "EpochLedger_init = \<lparr>EpochLedger.nodes = [], final_root = None, EpochLedger.verifier_ops = 0\<rparr>"

text \<open>
  \<open>add_epoch\<close> counts one operation, hashes \<open>(epoch, parent)\<close> and stores a fresh
  unfinalized node under \<open>epoch\<close>, whether or not the key is already there. It returns the
  root. (The arguments are \<open>e\<close> and \<open>p\<close> here: \<open>epoch\<close> and \<open>parent\<close> are field names.)
\<close>

definition add_epoch ::
  "(int \<Rightarrow> int option \<Rightarrow> int) \<Rightarrow> int \<Rightarrow> int option \<Rightarrow> EpochLedger \<Rightarrow> int \<times> EpochLedger" where
  "add_epoch hash_fn e p L =
     (let L1 = L\<lparr>EpochLedger.verifier_ops := EpochLedger.verifier_ops L + 1\<rparr>;
          r = hash_fn e p
      in (r, L1\<lparr>EpochLedger.nodes := AList.update e
                  \<lparr>EpochNode.epoch = e, parent = p, root = r, finalized = False\<rparr> (EpochLedger.nodes L1)\<rparr>))"

text \<open>
  \<open>finalize_up_to\<close> walks \<open>nodes.items()\<close> in insertion order; for every key \<open>e\<close> not
  above the bound it sets the node's flag and overwrites \<open>final_root\<close> with the node's
  root. \<open>finalize_items\<close> is that loop: it returns the items with their flags set and the
  last value written to \<open>final_root\<close> (the value it had when no key qualifies). The
  counter is not touched.
\<close>

fun finalize_items ::
  "int \<Rightarrow> (int \<times> EpochNode) list \<Rightarrow> int option \<Rightarrow> (int \<times> EpochNode) list \<times> int option" where
  "finalize_items bound [] fr = ([], fr)"
| "finalize_items bound ((e, node) # rest) fr =
     (if e \<le> bound
      then (case finalize_items bound rest (Some (root node)) of
              (rest', fr') \<Rightarrow> ((e, node\<lparr>finalized := True\<rparr>) # rest', fr'))
      else (case finalize_items bound rest fr of
              (rest', fr') \<Rightarrow> ((e, node) # rest', fr')))"

definition finalize_up_to :: "int \<Rightarrow> EpochLedger \<Rightarrow> EpochLedger" where
  "finalize_up_to bound L =
     (case finalize_items bound (EpochLedger.nodes L) (final_root L) of
        (ns, fr) \<Rightarrow> L\<lparr>EpochLedger.nodes := ns, final_root := fr\<rparr>)"

text \<open>
  \<open>try_late_injection\<close> counts one operation, returns \<open>False\<close> without storing when
  \<open>parent in self.nodes and self.nodes[parent].finalized\<close>, and otherwise stores a fresh
  unfinalized node under \<open>epoch\<close> and returns \<open>True\<close>.
\<close>

definition try_late_injection ::
  "(int \<Rightarrow> int option \<Rightarrow> int) \<Rightarrow> int \<Rightarrow> int \<Rightarrow> EpochLedger \<Rightarrow> bool \<times> EpochLedger" where
  "try_late_injection hash_fn e p L =
     (let L1 = L\<lparr>EpochLedger.verifier_ops := EpochLedger.verifier_ops L + 1\<rparr>
      in if (case map_of (EpochLedger.nodes L1) p of None \<Rightarrow> False | Some n \<Rightarrow> finalized n)
         then (False, L1)
         else (True, L1\<lparr>EpochLedger.nodes := AList.update e
                  \<lparr>EpochNode.epoch = e, parent = Some p, root = hash_fn e (Some p), finalized = False\<rparr>
                  (EpochLedger.nodes L1)\<rparr>))"

text \<open>A sequence of calls on one ledger, results discarded.\<close>

datatype ledger_call = AddEpoch int "int option" | FinalizeUpTo int | TryLateInjection int int

fun ledger_step :: "(int \<Rightarrow> int option \<Rightarrow> int) \<Rightarrow> ledger_call \<Rightarrow> EpochLedger \<Rightarrow> EpochLedger" where
  "ledger_step hash_fn (AddEpoch e p) L = snd (add_epoch hash_fn e p L)"
| "ledger_step hash_fn (FinalizeUpTo e) L = finalize_up_to e L"
| "ledger_step hash_fn (TryLateInjection e p) L = snd (try_late_injection hash_fn e p L)"

fun ledger_run :: "(int \<Rightarrow> int option \<Rightarrow> int) \<Rightarrow> ledger_call list \<Rightarrow> EpochLedger \<Rightarrow> EpochLedger" where
  "ledger_run hash_fn [] L = L"
| "ledger_run hash_fn (c # cs) L = ledger_run hash_fn cs (ledger_step hash_fn c L)"

section \<open>IVC folding engine and its divergence audit (tklocal\_ivc\_folding\_equivocation\_audit.py)\<close>

text \<open>
  \<open>FoldingEngine.fold\<close> is modelled as \<open>fold_step\<close>: the name \<open>fold\<close> is taken by the
  list combinator. \<open>fold_all\<close> is a sequence of \<open>fold\<close> calls on one engine, each fed
  the state the previous call returned.

  The audit loop draws one witness per depth from the seeded generator; the draws are the
  parameter \<open>draw\<close> (the witness drawn at depth \<open>d\<close> is \<open>draw d\<close>). The script fixes
  \<open>MAX_DEPTH = 64\<close>, perturbs engine B at depth \<open>MAX_DEPTH // 2\<close> by \<open>0.25\<close> and compares
  against \<open>RESIDUAL_BOUND = 1e-6\<close>; the loop takes these four as arguments so that the
  property can be stated for any perturbation depth, perturbation and bound.
  \<open>remaining\<close> counts the iterations of \<open>range(1, MAX_DEPTH + 1)\<close> still to run.
\<close>

record FoldState =
  accumulator :: real
  residual :: real

record FoldingEngine =
  verifier_ops :: nat
  max_residual :: real

definition FoldingEngine_init :: FoldingEngine where
  "FoldingEngine_init = \<lparr>FoldingEngine.verifier_ops = 0, max_residual = 0\<rparr>"

definition fold_step :: "FoldState \<Rightarrow> real \<Rightarrow> FoldingEngine \<Rightarrow> FoldState \<times> FoldingEngine" where
  "fold_step prev witness eng =
     (let eng1 = eng\<lparr>FoldingEngine.verifier_ops := FoldingEngine.verifier_ops eng + 1\<rparr>;
          new_acc = 0.5 * accumulator prev + 0.5 * witness;
          res = \<bar>new_acc - accumulator prev\<bar>;
          eng2 = eng1\<lparr>max_residual := max (max_residual eng1) res\<rparr>
      in (\<lparr>accumulator = new_acc, residual = res\<rparr>, eng2))"

fun fold_all :: "real list \<Rightarrow> FoldState \<Rightarrow> FoldingEngine \<Rightarrow> FoldState \<times> FoldingEngine" where
  "fold_all [] s eng = (s, eng)"
| "fold_all (w # ws) s eng = (case fold_step s w eng of (s', eng') \<Rightarrow> fold_all ws s' eng')"

text \<open>
  The locals of \<open>run_ivc_folding_equivocation_audit\<close> that its loop reads and writes.
  \<open>detection_depth\<close> starts at \<open>-1\<close>; the loop stops at the first depth at which the two
  accumulators differ by more than the bound.
\<close>

record FoldAudit =
  engine_A :: FoldingEngine
  engine_B :: FoldingEngine
  state_A :: FoldState
  state_B :: FoldState
  detection_depth :: int
  equivocation_detected :: bool





section \<open>Signed replay and equivocation detector (tklocal\_signed\_equivocation\_replay\_audit.py)\<close>

text \<open>
  The delivery phase of \<open>run_signed_equivocation_replay_audit\<close>. The detector's state is
  the locals of the audit function that the delivery phase reads and writes. Signing and
  verifying are done by an external library: \<open>verify\<close> (with the public key fixed) and
  \<open>canonical_message\<close> (a float formatted to twelve decimals) are parameters. A failed
  verification raises \<open>RuntimeError\<close>, which is the \<open>Inl\<close> branch. \<open>cur\<close> is the epoch
  of the outer loop at which the phase runs.
\<close>

type_synonym bytes = "8 word list"

record SignedFrame =
  epoch :: int
  state :: real
  signature :: bytes

datatype error = SignatureVerificationFailure | DTCContractionFailure

record ReplayDetector =
  seen_frames :: "(int \<times> real \<times> bytes) set"
  seen_epochs :: "int \<rightharpoonup> real"
  equivocation_detected :: bool
  replay_detected :: bool
  detection_epoch :: "int option"
  verifier_ops :: nat

definition ReplayDetector_init :: ReplayDetector where
  "ReplayDetector_init =
     \<lparr>seen_frames = {}, seen_epochs = Map.empty, ReplayDetector.equivocation_detected = False,
      replay_detected = False, detection_epoch = None, ReplayDetector.verifier_ops = 0\<rparr>"

text \<open>
  \<open>deliver_frame\<close> is the body of the delivery loop for a frame whose delay has run out:
  one operation is counted, the signature is verified, then the replay check on
  \<open>seen_frames\<close>, then the equivocation check on \<open>seen_epochs\<close>, and only a frame that
  passes both is recorded in the two collections. \<open>delivery_phase\<close> is the loop over the
  inbox, which also builds the next inbox from the frames still delayed, and
  \<open>delivery_phases\<close> runs any sequence of phases, each on the inbox it is given.
\<close>

definition deliver_frame ::
  "(int \<Rightarrow> real \<Rightarrow> bytes) \<Rightarrow> (bytes \<Rightarrow> bytes \<Rightarrow> bool) \<Rightarrow> int \<Rightarrow> SignedFrame \<Rightarrow>
     ReplayDetector \<Rightarrow> error + ReplayDetector" where
  "deliver_frame canonical_message verify cur f d =
     (let d1 = d\<lparr>ReplayDetector.verifier_ops := ReplayDetector.verifier_ops d + 1\<rparr>;
          msg = canonical_message (SignedFrame.epoch f) (SignedFrame.state f)
      in if \<not> verify msg (signature f) then Inl SignatureVerificationFailure
         else let frame_id = (SignedFrame.epoch f, SignedFrame.state f, signature f)
              in if frame_id \<in> seen_frames d1
                 then Inr (d1\<lparr>replay_detected := True\<rparr>)
                 else if (case seen_epochs d1 (SignedFrame.epoch f) of
                            None \<Rightarrow> False | Some s \<Rightarrow> s \<noteq> SignedFrame.state f)
                 then Inr (d1\<lparr>ReplayDetector.equivocation_detected := True, detection_epoch := Some cur\<rparr>)
                 else Inr (d1\<lparr>seen_frames := insert frame_id (seen_frames d1),
                              seen_epochs := (seen_epochs d1)(SignedFrame.epoch f \<mapsto> SignedFrame.state f)\<rparr>))"

fun delivery_phase ::
  "(int \<Rightarrow> real \<Rightarrow> bytes) \<Rightarrow> (bytes \<Rightarrow> bytes \<Rightarrow> bool) \<Rightarrow> int \<Rightarrow> (SignedFrame \<times> nat) list \<Rightarrow>
     (SignedFrame \<times> nat) list \<Rightarrow> ReplayDetector \<Rightarrow> error + ((SignedFrame \<times> nat) list \<times> ReplayDetector)" where
  "delivery_phase canonical_message verify cur [] next_inbox d = Inr (next_inbox, d)"
| "delivery_phase canonical_message verify cur ((f, delay) # rest) next_inbox d =
     (if delay > 0
      then delivery_phase canonical_message verify cur rest (next_inbox @ [(f, delay - 1)]) d
      else (case deliver_frame canonical_message verify cur f d of
              Inl e \<Rightarrow> Inl e
            | Inr d' \<Rightarrow> delivery_phase canonical_message verify cur rest next_inbox d'))"

fun delivery_phases ::
  "(int \<Rightarrow> real \<Rightarrow> bytes) \<Rightarrow> (bytes \<Rightarrow> bytes \<Rightarrow> bool) \<Rightarrow> (int \<times> (SignedFrame \<times> nat) list) list \<Rightarrow>
     ReplayDetector \<Rightarrow> error + ReplayDetector" where
  "delivery_phases canonical_message verify [] d = Inr d"
| "delivery_phases canonical_message verify ((cur, queue) # rest) d =
     (case delivery_phase canonical_message verify cur queue [] d of
        Inl e \<Rightarrow> Inl e
      | Inr (next_inbox, d') \<Rightarrow> delivery_phases canonical_message verify rest d')"

section \<open>Aggregator of the adversarial scheduling audit (tklocal\_adversarial\_audit.py)\<close>

record Frame =
  index :: int
  "value" :: real
  valid :: bool
  stale :: bool

record Aggregator =
  state :: real
  verifier_ops :: nat
  residuals :: "real list"

definition Aggregator_init :: Aggregator where
  "Aggregator_init = \<lparr>Aggregator.state = 0, Aggregator.verifier_ops = 0, residuals = []\<rparr>"

text \<open>
  \<open>Aggregator.process\<close>: the counter is bumped before the validity test; an invalid frame
  returns at once.
\<close>

definition process :: "Frame \<Rightarrow> Aggregator \<Rightarrow> Aggregator" where
  "process frame agg =
     (let a1 = agg\<lparr>Aggregator.verifier_ops := Aggregator.verifier_ops agg + 1\<rparr>
      in if \<not> valid frame then a1
         else (let prev = Aggregator.state a1;
                   a2 = a1\<lparr>Aggregator.state := 0.9 * Aggregator.state a1 + 0.1 * value frame\<rparr>
               in a2\<lparr>residuals := residuals a2 @ [\<bar>Aggregator.state a2 - prev\<bar>]\<rparr>))"

section \<open>Gossip phase of the coupled stress audit (tklocal\_mega\_coupled\_stress\_audit.py)\<close>



record Node =
  node_id :: nat
  ipv6 :: string
  q_node :: nat
  state :: real
  inbox :: "(nat \<times> real \<times> nat) list"
  history :: "nat \<rightharpoonup> real"

record 'g Gossip =
  nodes :: "Node list"
  rng :: 'g
  equivocation_detected :: bool
  equivocation_epoch :: "nat option"
  verifier_ops :: nat




text \<open>
  The receive loop of one node reads and writes the node, the inbox being rebuilt, the two
  equivocation fields and the operation counter; \<open>Receipt\<close> holds them. The receiver
  looks the sender's id up in its own history, whose keys are the rounds in which it sent.
\<close>

record Receipt =
  node :: Node
  new_inbox :: "(nat \<times> real \<times> nat) list"
  detected :: bool
  detected_epoch :: "nat option"
  ops :: nat








section \<open>Predicates used in the proofs\<close>

text \<open>
  None of these is part of the scripts. \<open>call_target\<close> is the epoch a ledger call may
  store a node for; \<open>same_identity\<close> compares two nodes up to a finalization that happened
  in between; \<open>keyed_by_epoch\<close> says that every node is stored under its own epoch;
  \<open>all_verified\<close> that every accepted frame passes verification. The \<open>calm\<close> predicates
  describe a gossip network that the conflicting value has not entered: every state, every
  value in flight and every history entry a receiver can look up is the common initial
  state \<open>s\<close>. The \<open>flags_ok\<close> predicates tie the two equivocation fields together.
\<close>

fun call_target :: "ledger_call \<Rightarrow> int option" where
  "call_target (AddEpoch e p) = Some e"
| "call_target (FinalizeUpTo e) = None"
| "call_target (TryLateInjection e p) = Some e"

definition keyed_by_epoch :: "(int \<times> EpochNode) list \<Rightarrow> bool" where
  "keyed_by_epoch ns = list_all (\<lambda>(k, n). EpochNode.epoch n = k) ns"

definition same_identity :: "EpochNode \<Rightarrow> EpochNode \<Rightarrow> bool" where
  "same_identity n n' =
     (EpochNode.epoch n' = EpochNode.epoch n \<and> parent n' = parent n \<and> root n' = root n \<and>
      (if finalized n then finalized n' else True))"

definition all_verified ::
  "(int \<Rightarrow> real \<Rightarrow> bytes) \<Rightarrow> (bytes \<Rightarrow> bytes \<Rightarrow> bool) \<Rightarrow> ReplayDetector \<Rightarrow> bool" where
  "all_verified cm verify d = (\<forall>(e, s, sg) \<in> seen_frames d. verify (cm e s) sg)"








section \<open>Properties of the equivocation verifier and of the operation counters\<close>

lemma observe_ops: "EquivocationVerifier.ops (snd (observe c b v)) = EquivocationVerifier.ops v + 1"
  by (simp add: observe_def Let_def split: option.splits prod.splits)

lemma observe_all_ops: "EquivocationVerifier.ops (observe_all xs v) = EquivocationVerifier.ops v + length xs"
  by (induction xs arbitrary: v) (auto simp: observe_ops)

lemma observe_seen_other:
  "k \<noteq> (EpochCommitment.epoch c, parent_root c) \<Longrightarrow> seen (snd (observe c b v)) k = seen v k"
  by (simp add: observe_def Let_def split: option.splits prod.splits)

lemma observe_seen_fresh:
  "seen v (EpochCommitment.epoch c, parent_root c) = None \<Longrightarrow>
   seen (snd (observe c b v)) (EpochCommitment.epoch c, parent_root c) = Some (state_root c, b)"
  by (simp add: observe_def Let_def)

lemma observe_root_kept:
  "seen v k = Some (r, b) \<Longrightarrow> \<exists>b'. seen (snd (observe c nm v)) k = Some (r, b')"
  by (cases "k = (EpochCommitment.epoch c, parent_root c)")
     (auto simp: observe_def Let_def split: option.splits prod.splits)

lemma observe_all_root_kept:
  "seen v k = Some (r, b) \<Longrightarrow> \<exists>b'. seen (observe_all xs v) k = Some (r, b')"
proof (induction xs arbitrary: v b)
  case Nil
  then show ?case by simp
next
  case (Cons x xs)
  obtain c nm where x: "x = (c, nm)" by (cases x)
  from observe_root_kept [OF Cons.prems] obtain b' where
    "seen (snd (observe c nm v)) k = Some (r, b')" by blast
  from Cons.IH [OF this] show ?case by (simp add: x)
qed

lemma observe_all_first_root:
  "seen v k = None \<Longrightarrow> map_option fst (seen (observe_all xs v) k) = first_root k xs"
proof (induction xs arbitrary: v)
  case Nil
  then show ?case by simp
next
  case (Cons x xs)
  obtain c nm where x: "x = (c, nm)" by (cases x)
  show ?case
  proof (cases "(EpochCommitment.epoch c, parent_root c) = k")
    case True
    with Cons.prems have "seen (snd (observe c nm v)) k = Some (state_root c, nm)"
      using observe_seen_fresh [of v c nm] by simp
    from observe_all_root_kept [OF this] obtain b' where
      "seen (observe_all xs (snd (observe c nm v))) k = Some (state_root c, b')" by blast
    with True show ?thesis by (simp add: x)
  next
    case False
    then have "seen (snd (observe c nm v)) k = None"
      using Cons.prems observe_seen_other [of k c nm v] by auto
    from Cons.IH [OF this] False show ?thesis by (simp add: x)
  qed
qed

text \<open>
  Claim C1. Whenever a key \<open>(epoch, parent_root)\<close> is already recorded with root \<open>r\<close> and
  \<open>observe\<close> is called with the same key and another root, the call reports equivocation
  (with the commitment's epoch and the caller's label) and leaves the whole map as it was;
  and whatever observations follow, the root stored for the key is still \<open>r\<close>. Started
  from the empty verifier, the root stored for a key after any sequence of observations is
  the root of the first commitment of the sequence that carried the key.
\<close>

theorem observe_equivocation_detected_first_root_kept:
  "(seen v (EpochCommitment.epoch c, parent_root c) = Some (r, b) \<and> state_root c \<noteq> r \<longrightarrow>
      fst (observe c nm v) = (True, Some (EpochCommitment.epoch c), Some nm) \<and>
      seen (snd (observe c nm v)) = seen v \<and>
      (\<exists>b'. seen (observe_all xs (snd (observe c nm v))) (EpochCommitment.epoch c, parent_root c)
              = Some (r, b'))) \<and>
   map_option fst (seen (observe_all ys EquivocationVerifier_init) k) = first_root k ys"
proof -
  have first: "map_option fst (seen (observe_all ys EquivocationVerifier_init) k) = first_root k ys"
    by (rule observe_all_first_root) (simp add: EquivocationVerifier_init_def)
  have det: "fst (observe c nm v) = (True, Some (EpochCommitment.epoch c), Some nm) \<and>
      seen (snd (observe c nm v)) = seen v \<and>
      (\<exists>b'. seen (observe_all xs (snd (observe c nm v))) (EpochCommitment.epoch c, parent_root c)
              = Some (r, b'))"
    if h: "seen v (EpochCommitment.epoch c, parent_root c) = Some (r, b)" and ne: "state_root c \<noteq> r"
  proof -
    from h ne have a: "fst (observe c nm v) = (True, Some (EpochCommitment.epoch c), Some nm)"
      by (auto simp: observe_def Let_def)
    from h ne have s: "seen (snd (observe c nm v)) = seen v"
      by (auto simp: observe_def Let_def)
    from h s have "seen (snd (observe c nm v)) (EpochCommitment.epoch c, parent_root c) = Some (r, b)"
      by simp
    from observe_all_root_kept [OF this] a s show ?thesis by blast
  qed
  from first det show ?thesis by blast
qed

theorem observe_equivocation_detected_first_root_kept_witness:
  "fst (observe \<lparr>EpochCommitment.epoch = 1, parent_root = 7, state_root = 22\<rparr> ''Branch_B''
         (snd (observe \<lparr>EpochCommitment.epoch = 1, parent_root = 7, state_root = 11\<rparr> ''Branch_A''
                EquivocationVerifier_init)))
     = (True, Some 1, Some ''Branch_B'') \<and>
   (\<exists>b'. seen (observe_all [(\<lparr>EpochCommitment.epoch = 1, parent_root = 7, state_root = 33\<rparr>, ''Branch_C'')]
            (snd (observe \<lparr>EpochCommitment.epoch = 1, parent_root = 7, state_root = 22\<rparr> ''Branch_B''
               (snd (observe \<lparr>EpochCommitment.epoch = 1, parent_root = 7, state_root = 11\<rparr> ''Branch_A''
                      EquivocationVerifier_init))))) (1, 7) = Some (11, b'))"
proof -
  let ?v = "snd (observe \<lparr>EpochCommitment.epoch = 1, parent_root = 7, state_root = 11\<rparr> ''Branch_A''
                  EquivocationVerifier_init)"
  let ?c = "\<lparr>EpochCommitment.epoch = 1, parent_root = 7, state_root = 22\<rparr>"
  have h: "seen ?v (EpochCommitment.epoch ?c, parent_root ?c) = Some (11, ''Branch_A'')"
    by (simp add: observe_def EquivocationVerifier_init_def Let_def)
  have ne: "state_root ?c \<noteq> 11" by simp
  from observe_equivocation_detected_first_root_kept
         [of ?v ?c 11 "''Branch_A''" "''Branch_B''"
             "[(\<lparr>EpochCommitment.epoch = 1, parent_root = 7, state_root = 33\<rparr>, ''Branch_C'')]" "[]" "(0, 0)"]
       h ne
  show ?thesis by simp
qed

lemma fold_step_ops:
  "FoldingEngine.verifier_ops (snd (fold_step s w eng)) = FoldingEngine.verifier_ops eng + 1"
  by (simp add: fold_step_def Let_def)

lemma fold_all_ops:
  "FoldingEngine.verifier_ops (snd (fold_all ws s eng)) = FoldingEngine.verifier_ops eng + length ws"
proof (induction ws arbitrary: s eng)
  case Nil
  then show ?case by simp
next
  case (Cons w ws)
  obtain s' eng' where st: "fold_step s w eng = (s', eng')" by (cases "fold_step s w eng")
  from fold_step_ops [of s w eng] st
  have "FoldingEngine.verifier_ops eng' = FoldingEngine.verifier_ops eng + 1" by simp
  with Cons.IH [of s' eng'] st show ?case by simp
qed

text \<open>
  Claim C6. Every \<open>observe\<close> call adds exactly one to the verifier's counter, whatever it
  returns, and every \<open>fold\<close> call adds exactly one to the engine's counter; so after \<open>N\<close>
  calls on a fresh verifier (a fresh engine) the counter is exactly \<open>N\<close>, whatever history
  has accumulated.
\<close>

theorem operation_counter_counts_calls:
  "EquivocationVerifier.ops (snd (observe c nm v)) = EquivocationVerifier.ops v + 1 \<and>
   EquivocationVerifier.ops (observe_all xs v) = EquivocationVerifier.ops v + length xs \<and>
   EquivocationVerifier.ops (observe_all xs EquivocationVerifier_init) = length xs \<and>
   FoldingEngine.verifier_ops (snd (fold_step s w eng)) = FoldingEngine.verifier_ops eng + 1 \<and>
   FoldingEngine.verifier_ops (snd (fold_all ws s eng)) = FoldingEngine.verifier_ops eng + length ws \<and>
   FoldingEngine.verifier_ops (snd (fold_all ws s FoldingEngine_init)) = length ws"
  by (simp add: observe_ops observe_all_ops fold_step_ops fold_all_ops
        EquivocationVerifier_init_def FoldingEngine_init_def)

text \<open>
  Claim C10. When the key is already recorded and the observed root equals the stored one,
  \<open>observe\<close> returns \<open>(False, None, None)\<close> and stores the entry again: the root is the
  same, the label is now the caller's, and no other key changes.
\<close>

theorem observe_same_root_relabels:
  "seen v (EpochCommitment.epoch c, parent_root c) = Some (state_root c, b) \<Longrightarrow>
   observe c nm v =
     ((False, None, None),
      v\<lparr>EquivocationVerifier.ops := EquivocationVerifier.ops v + 1,
        seen := (seen v)((EpochCommitment.epoch c, parent_root c) \<mapsto> (state_root c, nm))\<rparr>)"
  by (simp add: observe_def Let_def)

theorem observe_same_root_relabels_witness:
  "observe \<lparr>EpochCommitment.epoch = 3, parent_root = 9, state_root = 40\<rparr> ''Branch_B''
     \<lparr>seen = [(3, 9) \<mapsto> (40, ''Branch_A'')], EquivocationVerifier.ops = 1\<rparr> =
   ((False, None, None), \<lparr>seen = [(3, 9) \<mapsto> (40, ''Branch_B'')], EquivocationVerifier.ops = 2\<rparr>)"
proof -
  let ?v = "\<lparr>seen = [(3::int, 9::int) \<mapsto> (40::int, ''Branch_A'')], EquivocationVerifier.ops = 1\<rparr>"
  let ?c = "\<lparr>EpochCommitment.epoch = 3, parent_root = 9, state_root = 40\<rparr>"
  have h: "seen ?v (EpochCommitment.epoch ?c, parent_root ?c) = Some (state_root ?c, ''Branch_A'')"
    by simp
  from observe_same_root_relabels [OF h, of "''Branch_B''"] show ?thesis by simp
qed

section \<open>Properties of the epoch ledger\<close>

lemma finalize_items_fst_Cons:
  "fst (finalize_items bound ((e, n) # rest) fr) =
     (e, if e \<le> bound then n\<lparr>finalized := True\<rparr> else n) #
     fst (finalize_items bound rest (if e \<le> bound then Some (root n) else fr))"
  by (simp split: prod.splits)

lemma finalize_items_snd_Cons:
  "snd (finalize_items bound ((e, n) # rest) fr) =
     snd (finalize_items bound rest (if e \<le> bound then Some (root n) else fr))"
  by (simp split: prod.splits)

lemma finalize_items_fst:
  "fst (finalize_items bound ns fr) =
     map (\<lambda>(e, n). (e, if e \<le> bound then n\<lparr>finalized := True\<rparr> else n)) ns"
proof (induction ns arbitrary: fr)
  case Nil
  then show ?case by simp
next
  case (Cons x ns)
  obtain e n where x: "x = (e, n)" by (cases x)
  show ?case unfolding x finalize_items_fst_Cons by (simp add: Cons.IH)
qed

lemma finalize_items_keys: "map fst (fst (finalize_items bound ns fr)) = map fst ns"
  by (simp add: finalize_items_fst comp_def case_prod_unfold)

lemma finalize_items_snd_again:
  "snd (finalize_items bound ns (snd (finalize_items bound ns fr))) = snd (finalize_items bound ns fr)"
proof (induction ns arbitrary: fr)
  case Nil
  then show ?case by simp
next
  case (Cons x ns)
  obtain e n where x: "x = (e, n)" by (cases x)
  show ?case unfolding x finalize_items_snd_Cons by (simp add: Cons.IH)
qed

lemma finalize_items_snd_marked:
  "snd (finalize_items bound (fst (finalize_items bound ns fr0)) fr) = snd (finalize_items bound ns fr)"
proof (induction ns arbitrary: fr fr0)
  case Nil
  then show ?case by simp
next
  case (Cons x ns)
  obtain e n where x: "x = (e, n)" by (cases x)
  show ?case unfolding x finalize_items_fst_Cons finalize_items_snd_Cons by (simp add: Cons.IH)
qed

lemma finalize_items_fst_again:
  "fst (finalize_items bound (fst (finalize_items bound ns fr0)) fr) = fst (finalize_items bound ns fr0)"
  by (simp add: finalize_items_fst comp_def case_prod_unfold)

lemma finalize_items_idem:
  "finalize_items bound ns fr = (ns', fr') \<Longrightarrow> finalize_items bound ns' fr' = (ns', fr')"
proof -
  assume h: "finalize_items bound ns fr = (ns', fr')"
  then have a: "ns' = fst (finalize_items bound ns fr)" and b: "fr' = snd (finalize_items bound ns fr)"
    by simp_all
  have "fst (finalize_items bound ns' fr') = ns'"
    unfolding a by (rule finalize_items_fst_again)
  moreover have "snd (finalize_items bound ns' fr') = fr'"
    unfolding a b by (simp add: finalize_items_snd_marked finalize_items_snd_again)
  ultimately show ?thesis by (simp add: prod_eq_iff)
qed

lemma finalize_up_to_idem: "finalize_up_to bound (finalize_up_to bound L) = finalize_up_to bound L"
proof -
  obtain ns' fr' where h: "finalize_items bound (EpochLedger.nodes L) (final_root L) = (ns', fr')"
    by (cases "finalize_items bound (EpochLedger.nodes L) (final_root L)")
  from finalize_items_idem [OF h] h show ?thesis
    by (simp add: finalize_up_to_def)
qed

lemma finalize_items_marks:
  "(k, n) \<in> set (fst (finalize_items bound ns fr)) \<Longrightarrow> k \<le> bound \<Longrightarrow> finalized n"
  by (auto simp: finalize_items_fst split: if_splits)

lemma finalize_up_to_nodes: "EpochLedger.nodes (finalize_up_to bound L) = fst (finalize_items bound (EpochLedger.nodes L) (final_root L))"
  by (simp add: finalize_up_to_def split: prod.splits)

lemma keyed_by_epoch_update:
  "keyed_by_epoch ns \<Longrightarrow> EpochNode.epoch n = k \<Longrightarrow> keyed_by_epoch (AList.update k n ns)"
  by (induction ns) (auto simp: keyed_by_epoch_def)

lemma keyed_by_epoch_finalize: "keyed_by_epoch ns \<Longrightarrow> keyed_by_epoch (fst (finalize_items bound ns fr))"
  by (auto simp: keyed_by_epoch_def finalize_items_fst list_all_iff split: if_splits)

lemma keyed_by_epoch_step: "keyed_by_epoch (EpochLedger.nodes L) \<Longrightarrow> keyed_by_epoch (EpochLedger.nodes (ledger_step H c L))"
  by (cases c) (auto simp: add_epoch_def try_late_injection_def Let_def finalize_up_to_nodes
        intro: keyed_by_epoch_update keyed_by_epoch_finalize)

lemma keyed_by_epoch_run: "keyed_by_epoch (EpochLedger.nodes L) \<Longrightarrow> keyed_by_epoch (EpochLedger.nodes (ledger_run H cs L))"
  by (induction cs arbitrary: L) (auto intro: keyed_by_epoch_step)

lemma map_of_finalize_items:
  "map_of (fst (finalize_items bound ns fr)) e =
     map_option (\<lambda>n. if e \<le> bound then n\<lparr>finalized := True\<rparr> else n) (map_of ns e)"
  unfolding finalize_items_fst by (induction ns) auto

lemma try_late_injection_unfold:
  "try_late_injection H e p L =
     (if (\<exists>n. map_of (EpochLedger.nodes L) p = Some n \<and> finalized n)
      then (False, L\<lparr>EpochLedger.verifier_ops := EpochLedger.verifier_ops L + 1\<rparr>)
      else (True, L\<lparr>EpochLedger.verifier_ops := EpochLedger.verifier_ops L + 1,
                    EpochLedger.nodes := AList.update e
                      \<lparr>EpochNode.epoch = e, parent = Some p, root = H e (Some p), finalized = False\<rparr>
                      (EpochLedger.nodes L)\<rparr>))"
  by (auto simp: try_late_injection_def Let_def split: option.splits)

text \<open>
  Claim C2. \<open>try_late_injection epoch parent\<close> returns \<open>False\<close> and leaves the node map
  as it was exactly when \<open>parent\<close> is a key of the node map whose node is finalized. In
  every other case (no such key, or a node that is not finalized) it returns \<open>True\<close> and
  stores under \<open>epoch\<close> a fresh unfinalized node with that parent.
\<close>

theorem try_late_injection_rejects_iff_parent_finalized:
  "((fst (try_late_injection H e p L) = False \<and>
     EpochLedger.nodes (snd (try_late_injection H e p L)) = EpochLedger.nodes L)
      = (\<exists>n. map_of (EpochLedger.nodes L) p = Some n \<and> finalized n)) \<and>
   (\<not> (\<exists>n. map_of (EpochLedger.nodes L) p = Some n \<and> finalized n) \<longrightarrow>
      fst (try_late_injection H e p L) = True \<and>
      EpochLedger.nodes (snd (try_late_injection H e p L)) =
        AList.update e \<lparr>EpochNode.epoch = e, parent = Some p, root = H e (Some p), finalized = False\<rparr> (EpochLedger.nodes L) \<and>
      map_of (EpochLedger.nodes (snd (try_late_injection H e p L))) e =
        Some \<lparr>EpochNode.epoch = e, parent = Some p, root = H e (Some p), finalized = False\<rparr>)"
  by (simp add: try_late_injection_unfold update_conv')

theorem try_late_injection_rejects_iff_parent_finalized_witness:
  "fst (try_late_injection (\<lambda>e p. 0) 9 0
          \<lparr>EpochLedger.nodes = [(0, \<lparr>EpochNode.epoch = 0, parent = None, root = 0, finalized = True\<rparr>),
                    (1, \<lparr>EpochNode.epoch = 1, parent = Some 0, root = 0, finalized = False\<rparr>)],
           final_root = Some 0, EpochLedger.verifier_ops = 2\<rparr>) = False \<and>
   EpochLedger.nodes (snd (try_late_injection (\<lambda>e p. 0) 9 0
          \<lparr>EpochLedger.nodes = [(0, \<lparr>EpochNode.epoch = 0, parent = None, root = 0, finalized = True\<rparr>),
                    (1, \<lparr>EpochNode.epoch = 1, parent = Some 0, root = 0, finalized = False\<rparr>)],
           final_root = Some 0, EpochLedger.verifier_ops = 2\<rparr>)) =
     [(0, \<lparr>EpochNode.epoch = 0, parent = None, root = 0, finalized = True\<rparr>),
      (1, \<lparr>EpochNode.epoch = 1, parent = Some 0, root = 0, finalized = False\<rparr>)] \<and>
   fst (try_late_injection (\<lambda>e p. 0) 9 1
          \<lparr>EpochLedger.nodes = [(0, \<lparr>EpochNode.epoch = 0, parent = None, root = 0, finalized = True\<rparr>),
                    (1, \<lparr>EpochNode.epoch = 1, parent = Some 0, root = 0, finalized = False\<rparr>)],
           final_root = Some 0, EpochLedger.verifier_ops = 2\<rparr>) = True \<and>
   map_of (EpochLedger.nodes (snd (try_late_injection (\<lambda>e p. 0) 9 1
          \<lparr>EpochLedger.nodes = [(0, \<lparr>EpochNode.epoch = 0, parent = None, root = 0, finalized = True\<rparr>),
                    (1, \<lparr>EpochNode.epoch = 1, parent = Some 0, root = 0, finalized = False\<rparr>)],
           final_root = Some 0, EpochLedger.verifier_ops = 2\<rparr>))) 9 =
     Some \<lparr>EpochNode.epoch = 9, parent = Some 1, root = 0, finalized = False\<rparr> \<and>
   fst (try_late_injection (\<lambda>e p. 0) 9 7
          \<lparr>EpochLedger.nodes = [(0, \<lparr>EpochNode.epoch = 0, parent = None, root = 0, finalized = True\<rparr>),
                    (1, \<lparr>EpochNode.epoch = 1, parent = Some 0, root = 0, finalized = False\<rparr>)],
           final_root = Some 0, EpochLedger.verifier_ops = 2\<rparr>) = True"
proof -
  let ?L = "\<lparr>EpochLedger.nodes = [(0, \<lparr>EpochNode.epoch = 0, parent = None, root = 0, finalized = True\<rparr>),
                    (1, \<lparr>EpochNode.epoch = 1, parent = Some 0, root = 0, finalized = False\<rparr>)],
           final_root = Some 0, EpochLedger.verifier_ops = 2\<rparr>"
  have fin: "\<exists>n. map_of (EpochLedger.nodes ?L) 0 = Some n \<and> finalized n" by simp
  have unf: "\<not> (\<exists>n. map_of (EpochLedger.nodes ?L) 1 = Some n \<and> finalized n)" by simp
  have absent: "\<not> (\<exists>n. map_of (EpochLedger.nodes ?L) 7 = Some n \<and> finalized n)" by simp
  from try_late_injection_rejects_iff_parent_finalized [of "\<lambda>e p. 0" 9 0 ?L] fin
       try_late_injection_rejects_iff_parent_finalized [of "\<lambda>e p. 0" 9 1 ?L] unf
       try_late_injection_rejects_iff_parent_finalized [of "\<lambda>e p. 0" 9 7 ?L] absent
  show ?thesis by simp
qed

lemma ledger_step_keeps_keys: "k \<in> fst ` set (EpochLedger.nodes L) \<Longrightarrow> k \<in> fst ` set (EpochLedger.nodes (ledger_step H c L))"
proof (cases c)
  case (AddEpoch e p)
  assume "k \<in> fst ` set (EpochLedger.nodes L)"
  then show ?thesis by (simp add: AddEpoch add_epoch_def Let_def dom_update)
next
  case (FinalizeUpTo b)
  assume k: "k \<in> fst ` set (EpochLedger.nodes L)"
  have "fst ` set (EpochLedger.nodes (finalize_up_to b L)) = set (map fst (EpochLedger.nodes (finalize_up_to b L)))" by simp
  also have "\<dots> = set (map fst (EpochLedger.nodes L))"
    by (simp only: finalize_up_to_nodes finalize_items_keys)
  finally show ?thesis using k by (simp add: FinalizeUpTo)
next
  case (TryLateInjection e p)
  assume "k \<in> fst ` set (EpochLedger.nodes L)"
  then show ?thesis by (simp add: TryLateInjection try_late_injection_unfold dom_update)
qed

lemma ledger_run_keeps_keys: "k \<in> fst ` set (EpochLedger.nodes L) \<Longrightarrow> k \<in> fst ` set (EpochLedger.nodes (ledger_run H cs L))"
  by (induction cs arbitrary: L) (auto intro: ledger_step_keeps_keys simp del: ledger_step.simps)

lemma same_identity_refl: "same_identity n n"
  by (simp add: same_identity_def)

lemma same_identity_trans: "same_identity a b \<Longrightarrow> same_identity b c \<Longrightarrow> same_identity a c"
  by (auto simp: same_identity_def split: if_splits)

lemma ledger_step_node_kept:
  assumes "map_of (EpochLedger.nodes L) k = Some n" and "call_target c \<noteq> Some k"
  shows "\<exists>n'. map_of (EpochLedger.nodes (ledger_step H c L)) k = Some n' \<and> same_identity n n'"
proof (cases c)
  case (AddEpoch e p)
  with assms show ?thesis
    by (auto simp: add_epoch_def Let_def update_conv' same_identity_refl)
next
  case (FinalizeUpTo b)
  with assms show ?thesis
    by (auto simp: finalize_up_to_nodes map_of_finalize_items same_identity_def)
next
  case (TryLateInjection e p)
  with assms show ?thesis
    by (auto simp: try_late_injection_unfold update_conv' same_identity_refl)
qed

lemma ledger_run_node_kept:
  "map_of (EpochLedger.nodes L) k = Some n \<Longrightarrow> list_all (\<lambda>c. call_target c \<noteq> Some k) cs \<Longrightarrow>
   \<exists>n'. map_of (EpochLedger.nodes (ledger_run H cs L)) k = Some n' \<and> same_identity n n'"
proof (induction cs arbitrary: L n)
  case Nil
  then show ?case by (auto simp: same_identity_refl)
next
  case (Cons c cs)
  from Cons.prems have t: "call_target c \<noteq> Some k" and r: "list_all (\<lambda>c. call_target c \<noteq> Some k) cs"
    by simp_all
  from ledger_step_node_kept [OF Cons.prems(1) t, of H] obtain m where
    m: "map_of (EpochLedger.nodes (ledger_step H c L)) k = Some m" and sm: "same_identity n m" by blast
  from Cons.IH [OF m r] obtain n' where
    "map_of (EpochLedger.nodes (ledger_run H cs (ledger_step H c L))) k = Some n'" and "same_identity m n'" by blast
  with sm show ?case by (auto intro: same_identity_trans)
qed

text \<open>
  Claim C5, amended. Over any sequence of \<open>add_epoch\<close>, \<open>finalize_up_to\<close> and
  \<open>try_late_injection\<close> calls an epoch that has a node keeps having one; its node keeps its
  epoch, parent and root, and stays finalized once it is, as long as no later \<open>add_epoch\<close>
  or \<open>try_late_injection\<close> call names that same epoch; and a rejected
  \<open>try_late_injection\<close> leaves the node map as it was.

  As stated the claim fails: \<open>add_epoch\<close> (and an accepted \<open>try_late_injection\<close>) stores
  unconditionally, so a second call for an epoch replaces the node stored for it.
\<close>

theorem ledger_epochs_never_removed:
  "(k \<in> fst ` set (EpochLedger.nodes L) \<longrightarrow> k \<in> fst ` set (EpochLedger.nodes (ledger_run H cs L))) \<and>
   (map_of (EpochLedger.nodes L) k = Some n \<and> list_all (\<lambda>c. call_target c \<noteq> Some k) cs \<longrightarrow>
      (\<exists>n'. map_of (EpochLedger.nodes (ledger_run H cs L)) k = Some n' \<and> same_identity n n')) \<and>
   (fst (try_late_injection H e p L) = False \<longrightarrow>
      EpochLedger.nodes (snd (try_late_injection H e p L)) = EpochLedger.nodes L)"
  using ledger_run_keeps_keys [of k L H cs] ledger_run_node_kept [of L k n cs H]
  by (auto simp: try_late_injection_unfold)

theorem ledger_epochs_never_removed_witness:
  "1 \<in> fst ` set (EpochLedger.nodes (ledger_run (\<lambda>e p. 0) [FinalizeUpTo 1, AddEpoch 2 (Some 1), TryLateInjection 3 1]
          \<lparr>EpochLedger.nodes = [(1, \<lparr>EpochNode.epoch = 1, parent = None, root = 0, finalized = False\<rparr>)],
           final_root = None, EpochLedger.verifier_ops = 1\<rparr>)) \<and>
   (\<exists>n'. map_of (EpochLedger.nodes (ledger_run (\<lambda>e p. 0) [FinalizeUpTo 1, AddEpoch 2 (Some 1), TryLateInjection 3 1]
          \<lparr>EpochLedger.nodes = [(1, \<lparr>EpochNode.epoch = 1, parent = None, root = 0, finalized = False\<rparr>)],
           final_root = None, EpochLedger.verifier_ops = 1\<rparr>)) 1 = Some n' \<and>
      same_identity \<lparr>EpochNode.epoch = 1, parent = None, root = 0, finalized = False\<rparr> n') \<and>
   EpochLedger.nodes (snd (try_late_injection (\<lambda>e p. 0) 3 1
          \<lparr>EpochLedger.nodes = [(1, \<lparr>EpochNode.epoch = 1, parent = None, root = 0, finalized = True\<rparr>)],
           final_root = Some 0, EpochLedger.verifier_ops = 1\<rparr>)) =
     [(1, \<lparr>EpochNode.epoch = 1, parent = None, root = 0, finalized = True\<rparr>)]"
proof -
  let ?L = "\<lparr>EpochLedger.nodes = [(1, \<lparr>EpochNode.epoch = 1, parent = None, root = 0, finalized = False\<rparr>)],
           final_root = None, EpochLedger.verifier_ops = 1\<rparr>"
  let ?M = "\<lparr>EpochLedger.nodes = [(1, \<lparr>EpochNode.epoch = 1, parent = None, root = 0, finalized = True\<rparr>)],
           final_root = Some 0, EpochLedger.verifier_ops = 1\<rparr>"
  let ?cs = "[FinalizeUpTo 1, AddEpoch 2 (Some 1), TryLateInjection 3 1]"
  have k: "1 \<in> fst ` set (EpochLedger.nodes ?L)" by simp
  have m: "map_of (EpochLedger.nodes ?L) 1 = Some \<lparr>EpochNode.epoch = 1, parent = None, root = 0, finalized = False\<rparr>" by simp
  have t: "list_all (\<lambda>c. call_target c \<noteq> Some 1) ?cs" by simp
  have r: "fst (try_late_injection (\<lambda>e p. 0) 3 1 ?M) = False"
    by (simp add: try_late_injection_def Let_def)
  from ledger_epochs_never_removed
         [of 1 ?L "\<lambda>e p. 0" ?cs "\<lparr>EpochNode.epoch = 1, parent = None, root = 0, finalized = False\<rparr>" 3 1]
       k m t
  have a: "1 \<in> fst ` set (EpochLedger.nodes (ledger_run (\<lambda>e p. 0) ?cs ?L))"
    and b: "\<exists>n'. map_of (EpochLedger.nodes (ledger_run (\<lambda>e p. 0) ?cs ?L)) 1 = Some n' \<and>
              same_identity \<lparr>EpochNode.epoch = 1, parent = None, root = 0, finalized = False\<rparr> n'"
    by blast+
  from ledger_epochs_never_removed [of 1 ?M "\<lambda>e p. 0" "[]" undefined 3 1] r
  have c: "EpochLedger.nodes (snd (try_late_injection (\<lambda>e p. 0) 3 1 ?M)) = EpochLedger.nodes ?M" by blast
  from a b c show ?thesis by simp
qed

text \<open>
  The claim as stated fails at two \<open>add_epoch\<close> calls for epoch 1: the node stored first
  (no parent) is replaced by a node with parent 0. The stand-in hash plays no part.
\<close>

theorem ledger_node_replaced_counterexample:
  "map_of (EpochLedger.nodes (ledger_run (\<lambda>e p. 0) [AddEpoch 1 None] EpochLedger_init)) 1
     = Some \<lparr>EpochNode.epoch = 1, parent = None, root = 0, finalized = False\<rparr> \<and>
   map_of (EpochLedger.nodes (ledger_run (\<lambda>e p. 0) [AddEpoch 1 None, AddEpoch 1 (Some 0)] EpochLedger_init)) 1
     = Some \<lparr>EpochNode.epoch = 1, parent = Some 0, root = 0, finalized = False\<rparr>"
  by (simp add: EpochLedger_init_def add_epoch_def Let_def)

text \<open>
  Claim C8. \<open>finalize_up_to e\<close> called twice in a row gives the same ledger (node map,
  flags, \<open>final_root\<close>, counter) as called once; after the call every node stored under a
  key \<open>\<le> e\<close> is finalized, and in a ledger built by the ledger's own operations from the
  empty one, where every node is stored under its own epoch, so is every node whose epoch
  field is \<open>\<le> e\<close>.
\<close>

theorem finalize_up_to_idempotent:
  "finalize_up_to bound (finalize_up_to bound L) = finalize_up_to bound L \<and>
   (\<forall>(k, n) \<in> set (EpochLedger.nodes (finalize_up_to bound L)). k \<le> bound \<longrightarrow> finalized n) \<and>
   (\<forall>(k, n) \<in> set (EpochLedger.nodes (finalize_up_to bound (ledger_run H cs EpochLedger_init))).
       EpochNode.epoch n \<le> bound \<longrightarrow> finalized n)"
proof -
  have a: "\<forall>(k, n) \<in> set (EpochLedger.nodes (finalize_up_to bound M)). k \<le> bound \<longrightarrow> finalized n" for M
    by (auto simp: finalize_up_to_nodes dest: finalize_items_marks)
  have "keyed_by_epoch (EpochLedger.nodes (ledger_run H cs EpochLedger_init))"
    by (rule keyed_by_epoch_run) (simp add: keyed_by_epoch_def EpochLedger_init_def)
  then have "keyed_by_epoch (EpochLedger.nodes (finalize_up_to bound (ledger_run H cs EpochLedger_init)))"
    unfolding finalize_up_to_nodes by (rule keyed_by_epoch_finalize)
  then have b: "\<forall>(k, n) \<in> set (EpochLedger.nodes (finalize_up_to bound (ledger_run H cs EpochLedger_init))).
       EpochNode.epoch n = k"
    by (simp add: keyed_by_epoch_def list_all_iff)
  from a [of "ledger_run H cs EpochLedger_init"] b
  have c: "\<forall>(k, n) \<in> set (EpochLedger.nodes (finalize_up_to bound (ledger_run H cs EpochLedger_init))).
       EpochNode.epoch n \<le> bound \<longrightarrow> finalized n"
    by fastforce
  from finalize_up_to_idem [of bound L] a [of L] c show ?thesis by blast
qed

theorem finalize_up_to_idempotent_witness:
  "finalize_up_to 0 (finalize_up_to 0
     \<lparr>EpochLedger.nodes = [(0, \<lparr>EpochNode.epoch = 0, parent = None, root = 5, finalized = False\<rparr>),
               (1, \<lparr>EpochNode.epoch = 1, parent = Some 0, root = 6, finalized = False\<rparr>)],
      final_root = None, EpochLedger.verifier_ops = 2\<rparr>) =
   \<lparr>EpochLedger.nodes = [(0, \<lparr>EpochNode.epoch = 0, parent = None, root = 5, finalized = True\<rparr>),
             (1, \<lparr>EpochNode.epoch = 1, parent = Some 0, root = 6, finalized = False\<rparr>)],
    final_root = Some 5, EpochLedger.verifier_ops = 2\<rparr>"
proof -
  let ?L = "\<lparr>EpochLedger.nodes = [(0, \<lparr>EpochNode.epoch = 0, parent = None, root = 5, finalized = False\<rparr>),
               (1, \<lparr>EpochNode.epoch = 1, parent = Some 0, root = 6, finalized = False\<rparr>)],
      final_root = None, EpochLedger.verifier_ops = 2\<rparr>"
  have once: "finalize_up_to 0 ?L =
     \<lparr>EpochLedger.nodes = [(0, \<lparr>EpochNode.epoch = 0, parent = None, root = 5, finalized = True\<rparr>),
             (1, \<lparr>EpochNode.epoch = 1, parent = Some 0, root = 6, finalized = False\<rparr>)],
      final_root = Some 5, EpochLedger.verifier_ops = 2\<rparr>"
    by (simp add: finalize_up_to_def)
  from finalize_up_to_idempotent [of 0 ?L "\<lambda>e p. 0" "[]"]
  have "finalize_up_to 0 (finalize_up_to 0 ?L) = finalize_up_to 0 ?L" by blast
  with once show ?thesis by simp
qed

section \<open>Properties of the folding divergence audit\<close>









section \<open>Properties of the signed replay detector\<close>

lemma deliver_frame_verified:
  "all_verified cm verify d \<Longrightarrow> deliver_frame cm verify cur f d = Inr d' \<Longrightarrow> all_verified cm verify d'"
  by (auto simp: deliver_frame_def Let_def all_verified_def split: if_splits option.splits)

lemma delivery_phase_verified:
  "all_verified cm verify d \<Longrightarrow> delivery_phase cm verify cur queue nxt d = Inr (nxt', d') \<Longrightarrow>
   all_verified cm verify d'"
proof (induction queue arbitrary: nxt d)
  case Nil
  then show ?case by simp
next
  case (Cons x queue)
  obtain f delay where x: "x = (f, delay)" by (cases x)
  show ?case
  proof (cases "delay > 0")
    case True
    with Cons.prems x show ?thesis by (auto intro: Cons.IH)
  next
    case False
    with Cons.prems(2) x obtain d1 where
      s: "deliver_frame cm verify cur f d = Inr d1" and
      r: "delivery_phase cm verify cur queue nxt d1 = Inr (nxt', d')"
      by (auto split: sum.splits)
    from deliver_frame_verified [OF Cons.prems(1) s] have "all_verified cm verify d1" .
    from Cons.IH [OF this r] show ?thesis .
  qed
qed

lemma delivery_phases_verified:
  "all_verified cm verify d \<Longrightarrow> delivery_phases cm verify phases d = Inr d' \<Longrightarrow>
   all_verified cm verify d'"
proof (induction phases arbitrary: d)
  case Nil
  then show ?case by simp
next
  case (Cons x phases)
  obtain cur queue where x: "x = (cur, queue)" by (cases x)
  from Cons.prems(2) x obtain nxt d1 where
    s: "delivery_phase cm verify cur queue [] d = Inr (nxt, d1)" and
    r: "delivery_phases cm verify phases d1 = Inr d'"
    by (auto split: sum.splits)
  from delivery_phase_verified [OF Cons.prems(1) s] have "all_verified cm verify d1" .
  from Cons.IH [OF this r] show ?case .
qed

lemma deliver_frame_replay:
  "(SignedFrame.epoch f, SignedFrame.state f, signature f) \<in> seen_frames d \<Longrightarrow> verify (cm (SignedFrame.epoch f) (SignedFrame.state f)) (signature f) \<Longrightarrow>
   deliver_frame cm verify cur f d = Inr (d\<lparr>ReplayDetector.verifier_ops := ReplayDetector.verifier_ops d + 1, replay_detected := True\<rparr>)"
  by (simp add: deliver_frame_def Let_def)

lemma deliver_frame_changes_only_on_accept:
  "deliver_frame cm verify cur f d = Inr d' \<Longrightarrow>
   (seen_frames d' = seen_frames d \<and> seen_epochs d' = seen_epochs d) \<or>
   ((SignedFrame.epoch f, SignedFrame.state f, signature f) \<notin> seen_frames d \<and>
    seen_frames d' = insert (SignedFrame.epoch f, SignedFrame.state f, signature f) (seen_frames d) \<and>
    seen_epochs d' = (seen_epochs d)(SignedFrame.epoch f \<mapsto> SignedFrame.state f) \<and>
    ReplayDetector.equivocation_detected d' = ReplayDetector.equivocation_detected d \<and>
    replay_detected d' = replay_detected d)"
  by (auto simp: deliver_frame_def Let_def split: if_splits)

text \<open>
  Claim C3. After any sequence of delivery phases that ran from the empty detector without
  a signature failure, delivering a frame whose triple \<open>(epoch, state, signature)\<close> is in
  \<open>seen_frames\<close> only counts one operation and sets \<open>replay_detected\<close>: the two
  collections are unchanged (the frame is not accepted again) and so are
  \<open>equivocation_detected\<close> and \<open>detection_epoch\<close> (it is not classified as equivocation).
  Moreover a delivery changes \<open>seen_frames\<close> or \<open>seen_epochs\<close> only when it accepts a
  frame that was not in \<open>seen_frames\<close>, and then it raises neither flag.
\<close>

theorem accepted_frame_redelivered_is_replay:
  "delivery_phases cm verify phases ReplayDetector_init = Inr d \<and>
   (SignedFrame.epoch f, SignedFrame.state f, signature f) \<in> seen_frames d \<longrightarrow>
     deliver_frame cm verify cur f d =
       Inr (d\<lparr>ReplayDetector.verifier_ops := ReplayDetector.verifier_ops d + 1, replay_detected := True\<rparr>) \<and>
     (\<forall>d1 g. deliver_frame cm verify cur g d = Inr d1 \<longrightarrow>
        (seen_frames d1 = seen_frames d \<and> seen_epochs d1 = seen_epochs d) \<or>
        ((SignedFrame.epoch g, SignedFrame.state g, signature g) \<notin> seen_frames d \<and>
         seen_frames d1 = insert (SignedFrame.epoch g, SignedFrame.state g, signature g) (seen_frames d) \<and>
         seen_epochs d1 = (seen_epochs d)(SignedFrame.epoch g \<mapsto> SignedFrame.state g) \<and>
         ReplayDetector.equivocation_detected d1 = ReplayDetector.equivocation_detected d \<and>
         replay_detected d1 = replay_detected d))"
proof (intro impI, elim conjE)
  assume run: "delivery_phases cm verify phases ReplayDetector_init = Inr d"
    and mem: "(SignedFrame.epoch f, SignedFrame.state f, signature f) \<in> seen_frames d"
  have "all_verified cm verify ReplayDetector_init"
    by (simp add: all_verified_def ReplayDetector_init_def)
  from delivery_phases_verified [OF this run] have "all_verified cm verify d" .
  with mem have ok: "verify (cm (SignedFrame.epoch f) (SignedFrame.state f)) (signature f)"
    by (auto simp: all_verified_def)
  have rep: "deliver_frame cm verify cur f d =
       Inr (d\<lparr>ReplayDetector.verifier_ops := ReplayDetector.verifier_ops d + 1, replay_detected := True\<rparr>)"
    using mem ok by (rule deliver_frame_replay)
  from rep deliver_frame_changes_only_on_accept [of cm verify cur _ d]
  show "deliver_frame cm verify cur f d =
       Inr (d\<lparr>ReplayDetector.verifier_ops := ReplayDetector.verifier_ops d + 1, replay_detected := True\<rparr>) \<and>
     (\<forall>d1 g. deliver_frame cm verify cur g d = Inr d1 \<longrightarrow>
        (seen_frames d1 = seen_frames d \<and> seen_epochs d1 = seen_epochs d) \<or>
        ((SignedFrame.epoch g, SignedFrame.state g, signature g) \<notin> seen_frames d \<and>
         seen_frames d1 = insert (SignedFrame.epoch g, SignedFrame.state g, signature g) (seen_frames d) \<and>
         seen_epochs d1 = (seen_epochs d)(SignedFrame.epoch g \<mapsto> SignedFrame.state g) \<and>
         ReplayDetector.equivocation_detected d1 = ReplayDetector.equivocation_detected d \<and>
         replay_detected d1 = replay_detected d))"
    by blast
qed

theorem accepted_frame_redelivered_is_replay_witness:
  "deliver_frame (\<lambda>e s. [7]) (\<lambda>m sg. sg \<noteq> []) 5 \<lparr>SignedFrame.epoch = 0, SignedFrame.state = 9 / 10, signature = [1]\<rparr>
     \<lparr>seen_frames = {(0, 9 / 10, [1])}, seen_epochs = [0 \<mapsto> 9 / 10], ReplayDetector.equivocation_detected = False,
      replay_detected = False, detection_epoch = None, ReplayDetector.verifier_ops = 1\<rparr> =
   Inr \<lparr>seen_frames = {(0, 9 / 10, [1])}, seen_epochs = [0 \<mapsto> 9 / 10], ReplayDetector.equivocation_detected = False,
        replay_detected = True, detection_epoch = None, ReplayDetector.verifier_ops = 2\<rparr>"
proof -
  let ?cm = "\<lambda>(e::int) (s::real). [7::8 word]"
  let ?verify = "\<lambda>(m::bytes) (sg::bytes). sg \<noteq> []"
  let ?f = "\<lparr>SignedFrame.epoch = 0, SignedFrame.state = 9 / 10, signature = [1]\<rparr>"
  let ?d = "\<lparr>seen_frames = {(0, 9 / 10, [1])}, seen_epochs = [0 \<mapsto> 9 / 10],
            ReplayDetector.equivocation_detected = False, replay_detected = False, detection_epoch = None,
            ReplayDetector.verifier_ops = 1\<rparr>"
  have run: "delivery_phases ?cm ?verify [(0, [(?f, 0)])] ReplayDetector_init = Inr ?d"
    by (simp add: deliver_frame_def ReplayDetector_init_def Let_def)
  have mem: "(SignedFrame.epoch ?f, SignedFrame.state ?f, signature ?f) \<in> seen_frames ?d" by simp
  from accepted_frame_redelivered_is_replay [of ?cm ?verify "[(0, [(?f, 0)])]" ?d ?f 5] run mem
  show ?thesis by simp
qed

section \<open>Properties of the aggregator\<close>

text \<open>
  Claim C9. \<open>process\<close> on an invalid frame adds one to the counter and changes nothing
  else; on a valid frame it adds one to the counter, sets the state to
  \<open>0.9 * state + 0.1 * value\<close> and appends \<open>|state_after - state_before|\<close> to the
  residuals.
\<close>

theorem process_frame_effect:
  "(\<not> valid frame \<longrightarrow>
      process frame agg = agg\<lparr>Aggregator.verifier_ops := Aggregator.verifier_ops agg + 1\<rparr>) \<and>
   (valid frame \<longrightarrow>
      process frame agg =
        agg\<lparr>Aggregator.verifier_ops := Aggregator.verifier_ops agg + 1,
            Aggregator.state := 0.9 * Aggregator.state agg + 0.1 * value frame,
            residuals := residuals agg @ [\<bar>(0.9 * Aggregator.state agg + 0.1 * value frame) - Aggregator.state agg\<bar>]\<rparr>)"
  by (simp add: process_def Let_def)

theorem process_frame_effect_witness:
  "process \<lparr>index = 4, value = 5, valid = False, stale = False\<rparr>
      \<lparr>Aggregator.state = 1, Aggregator.verifier_ops = 7, residuals = [2]\<rparr> =
     \<lparr>Aggregator.state = 1, Aggregator.verifier_ops = 8, residuals = [2]\<rparr> \<and>
   process \<lparr>index = 4, value = 11, valid = True, stale = True\<rparr>
      \<lparr>Aggregator.state = 1, Aggregator.verifier_ops = 7, residuals = [2]\<rparr> =
     \<lparr>Aggregator.state = 2, Aggregator.verifier_ops = 8, residuals = [2, 1]\<rparr>"
proof -
  let ?a = "\<lparr>Aggregator.state = 1, Aggregator.verifier_ops = 7, residuals = [2]\<rparr>"
  let ?bad = "\<lparr>index = 4, value = 5, valid = False, stale = False\<rparr>"
  let ?good = "\<lparr>index = 4, value = 11, valid = True, stale = True\<rparr>"
  have i: "\<not> valid ?bad" by simp
  have v: "valid ?good" by simp
  from process_frame_effect [of ?bad ?a] i process_frame_effect [of ?good ?a] v
  show ?thesis by simp
qed

section \<open>Properties of the gossip run\<close>




























end
